theory Spec2Isabelle
  imports Main "HOL-Library.Word" "HOL-Library.AList" "HOL-Library.Sublist"
begin

section \<open>Data model\<close>

text \<open>
  Go's \<^verbatim>\<open>uint\<close> (on the 64-bit targets the server is built for) and \<^verbatim>\<open>int64\<close>
  are 64-bit words; the conversion \<^verbatim>\<open>uint(x)\<close> of an \<^verbatim>\<open>int64\<close> keeps the bits, so
  both share one type and the conversion is the identity. Go strings are byte
  sequences: \<^verbatim>\<open>len\<close> counts bytes and \<^verbatim>\<open>str[:n]\<close> slices bytes, as \<open>length\<close>
  and \<open>take\<close> do on a \<open>char list\<close>.
\<close>

type_synonym uint = "64 word"
type_synonym int64 = "64 word"

text \<open>\<^verbatim>\<open>fleet.Software\<close>: the fields the datastore reads and writes.\<close>

record Software =
  ID :: uint
  Name :: string
  Version :: string
  Source :: string

text \<open>\<^verbatim>\<open>fleet.HostSoftware\<close>, embedded in \<^verbatim>\<open>fleet.Host\<close>.\<close>

record HostSoftware =
  Modified :: bool
  Software :: "Software list"

record Host =
  HostID :: uint
  HostSoftware :: HostSoftware

text \<open>A run-time panic of the Go program: index \<open>i\<close> read from a slice of length \<open>n\<close>.\<close>

datatype panic = IndexOutOfRange nat nat

section \<open>Key codec\<close>

definition maxSoftwareNameLen :: nat where
  "maxSoftwareNameLen = 255"

definition maxSoftwareVersionLen :: nat where
  "maxSoftwareVersionLen = 255"

definition maxSoftwareSourceLen :: nat where
  "maxSoftwareSourceLen = 64"

text \<open>
  \<^verbatim>\<open>truncateString\<close>. The length argument is an \<^verbatim>\<open>int\<close> in the source; every call
  passes one of the three positive constants above.
\<close>

definition truncateString :: "string \<Rightarrow> nat \<Rightarrow> string" where
  "truncateString str n = (if length str > n then take n str else str)"

text \<open>The separator \<^verbatim>\<open>"\u0000"\<close>: the single byte 0.\<close>

definition separator :: char where
  "separator = CHR 0x00"

text \<open>
  \<^verbatim>\<open>strings.Join\<close> and \<^verbatim>\<open>strings.Split\<close> of the Go standard library, the latter
  for a one-byte separator: the substrings between the separator bytes, so a string
  with \<open>n\<close> separator bytes gives \<open>n + 1\<close> parts and the empty string gives one
  empty part.
\<close>

fun strings_Join :: "string list \<Rightarrow> string \<Rightarrow> string" where
  "strings_Join [] sep = []"
| "strings_Join [x] sep = x"
| "strings_Join (x # y # ys) sep = x @ sep @ strings_Join (y # ys) sep"

fun strings_Split :: "string \<Rightarrow> char \<Rightarrow> string list" where
  "strings_Split [] c = [[]]"
| "strings_Split (x # xs) c =
     (if x = c then [] # strings_Split xs c
      else (case strings_Split xs c of
              [] \<Rightarrow> [[x]]
            | p # ps \<Rightarrow> (x # p) # ps))"

definition softwareToUniqueString :: "Software \<Rightarrow> string" where
  "softwareToUniqueString s = strings_Join [Name s, Version s, Source s] [separator]"

text \<open>Reading \<^verbatim>\<open>parts[i]\<close>: Go panics when the index is out of range.\<close>

definition index :: "'a list \<Rightarrow> nat \<Rightarrow> panic + 'a" where
  "index xs i = (if i < length xs then Inr (xs ! i) else Inl (IndexOutOfRange i (length xs)))"

text \<open>
  \<^verbatim>\<open>uniqueStringToSoftware\<close>. The three components are read in the order of the
  source; the \<^verbatim>\<open>ID\<close> field of the struct literal is left at its zero value.
\<close>

definition uniqueStringToSoftware :: "string \<Rightarrow> panic + Software" where
  "uniqueStringToSoftware s =
     (let parts = strings_Split s separator in
      case index parts 0 of
        Inl p \<Rightarrow> Inl p
      | Inr p0 \<Rightarrow>
          (case index parts 1 of
             Inl p \<Rightarrow> Inl p
           | Inr p1 \<Rightarrow>
               (case index parts 2 of
                  Inl p \<Rightarrow> Inl p
                | Inr p2 \<Rightarrow>
                    Inr \<lparr>ID = 0,
                         Name = truncateString p0 maxSoftwareNameLen,
                         Version = truncateString p1 maxSoftwareVersionLen,
                         Source = truncateString p2 maxSoftwareSourceLen\<rparr>)))"

section \<open>Go maps\<close>

text \<open>
  A Go map with string keys is an association list with distinct keys:
  \<^verbatim>\<open>m[k] = v\<close> is \<open>AList.update k v m\<close>, the two-valued read \<^verbatim>\<open>_, ok := m[k]\<close> is
  \<open>map_of m k\<close>, and the one-valued read \<^verbatim>\<open>m[k]\<close> gives the zero value for a
  missing key.
\<close>

type_synonym 'v gomap = "(string \<times> 'v) list"

definition read_or_zero :: "uint gomap \<Rightarrow> string \<Rightarrow> uint" where
  "read_or_zero m k = (case map_of m k of None \<Rightarrow> 0 | Some v \<Rightarrow> v)"

text \<open>
  The order in which \<^verbatim>\<open>range\<close> visits a map is unspecified and may differ from one
  loop to the next. The model takes it from the run: \<open>permute c ks\<close> rearranges the
  keys by the selection code \<open>c\<close> (pick the element at position \<open>i mod length\<close>,
  continue with the rest), which reaches every order and is always a rearrangement.
\<close>

fun permute :: "nat list \<Rightarrow> 'a list \<Rightarrow> 'a list" where
  "permute [] xs = xs"
| "permute (i # c) [] = []"
| "permute (i # c) (x # xs) =
     (let j = i mod length (x # xs)
      in (x # xs) ! j # permute c (take j (x # xs) @ drop (Suc j) (x # xs)))"

definition softwareSliceToSet :: "Software list \<Rightarrow> bool gomap" where
  "softwareSliceToSet softwares =
     foldl (\<lambda>result s. AList.update (softwareToUniqueString s) True result) [] softwares"

definition softwareSliceToIdMap :: "Software list \<Rightarrow> uint gomap" where
  "softwareSliceToIdMap softwareSlice =
     foldl (\<lambda>result s. AList.update (softwareToUniqueString s) (ID s) result) [] softwareSlice"

section \<open>Set differ\<close>

text \<open>The second loop of \<^verbatim>\<open>nothingChanged\<close>, returning at the first missing key.\<close>

fun allPresent :: "bool gomap \<Rightarrow> Software list \<Rightarrow> bool" where
  "allPresent currentBitmap [] = True"
| "allPresent currentBitmap (s # incoming) =
     (if map_of currentBitmap (softwareToUniqueString s) = None then False
      else allPresent currentBitmap incoming)"

definition nothingChanged :: "Software list \<Rightarrow> Software list \<Rightarrow> bool" where
  "nothingChanged current incoming =
     (if length current \<noteq> length incoming then False
      else allPresent
             (foldl (\<lambda>currentBitmap s. AList.update (softwareToUniqueString s) True currentBitmap)
                [] current)
             incoming)"

section \<open>The store\<close>

text \<open>
  Go errors. \<^verbatim>\<open>errors.Wrap(err, msg)\<close> keeps the cause; the store's own errors
  are of the two kinds the design distinguishes.
\<close>

datatype kind = Transient | Persistent

datatype error = StoreError kind | Wrap error string

fun retryableError :: "error \<Rightarrow> bool" where
  "retryableError (StoreError k) = (k = Transient)"
| "retryableError (Wrap err msg) = retryableError err"

text \<open>
  Modelled from the spec: the relational store, the transaction handle and the driver
  are not among the sources. The statements are the SQL texts of the source. The two
  batched statements carry the argument list as the source builds it:
  \<^verbatim>\<open>deletesHostSoftware\<close> is the host id followed by the software ids,
  \<^verbatim>\<open>insertsHostSoftware\<close> is a flat list of host id and software id in turn.
\<close>

datatype stmt =
    Begin
  | Commit
  | Rollback
  | SelectSoftwareId string string string
  | InsertIgnoreSoftware string string string
  | DeleteHostSoftware uint
  | DeleteHostSoftwareIn "uint list"
  | InsertHostSoftware "uint list"
  | SelectHostSoftware uint

text \<open>
  Modelled from the spec: what happens when a statement reaches the store. It runs,
  it fails with a transient or a persistent error, or other sessions first commit
  catalog rows for the given triples (two hosts reporting the same new software) and
  then it runs.
\<close>

datatype outcome = Proceed | Fails kind | Raced "(string \<times> string \<times> string) list"

record tables =
  software :: "Software list"
  host_software :: "(uint \<times> uint) list"

record sqlResult =
  LastInsertId :: int64
  RowsAffected :: nat

text \<open>
  Modelled from the spec: the state of the store. The catalog relation has a generated
  id and a unique
  constraint on \<open>(name, version, source)\<close>; the membership relation has a unique
  constraint on \<open>(host_id, software_id)\<close> and its \<open>software_id\<close> references the
  catalog. \<open>committed\<close> is the durable state, \<open>working\<close> is what the open
  transaction sees and writes, \<open>journal\<close> lists every statement this session
  sent with whether it succeeded, \<open>schedule\<close> gives the outcome of the statements
  to come (when it is used up, statements run), \<open>ranges\<close> the orders of the map
  iterations to come, \<open>retries\<close> how often a transaction is run again after its
  first attempt, and \<open>zero_effect_id\<close> the last-insert-id the driver reports for an
  insert that wrote nothing.
\<close>

record world =
  committed :: tables
  working :: tables
  auto_increment :: uint
  zero_effect_id :: int64
  retries :: nat
  journal :: "(stmt \<times> bool) list"
  schedule :: "outcome list"
  ranges :: "nat list list"

definition same_triple :: "string \<Rightarrow> string \<Rightarrow> string \<Rightarrow> Software \<Rightarrow> bool" where
  "same_triple n v s r = (Name r = n \<and> Version r = v \<and> Source r = s)"

definition insert_row :: "uint \<Rightarrow> string \<Rightarrow> string \<Rightarrow> string \<Rightarrow> tables \<Rightarrow> tables" where
  "insert_row i n v s t =
     t\<lparr>software := software t @ [\<lparr>ID = i, Name = n, Version = v, Source = s\<rparr>]\<rparr>"

text \<open>
  Modelled from the spec: another session's conflict-tolerant insert of a triple,
  committed at once; it writes nothing when the triple is in the catalog.
\<close>

fun interfere :: "(string \<times> string \<times> string) list \<Rightarrow> world \<Rightarrow> world" where
  "interfere [] w = w"
| "interfere ((n, v, s) # ts) w =
     interfere ts
       (if list_ex (same_triple n v s) (software (committed w))
           \<or> list_ex (same_triple n v s) (software (working w))
        then w
        else w\<lparr>committed := insert_row (auto_increment w) n v s (committed w),
               working := insert_row (auto_increment w) n v s (working w),
               auto_increment := auto_increment w + 1\<rparr>)"

definition arrive :: "world \<Rightarrow> kind option \<times> world" where
  "arrive w =
     (case schedule w of
        [] \<Rightarrow> (None, w)
      | Proceed # os \<Rightarrow> (None, w\<lparr>schedule := os\<rparr>)
      | Fails k # os \<Rightarrow> (Some k, w\<lparr>schedule := os\<rparr>)
      | Raced ts # os \<Rightarrow> (None, interfere ts (w\<lparr>schedule := os\<rparr>)))"

definition record_stmt :: "stmt \<Rightarrow> bool \<Rightarrow> world \<Rightarrow> world" where
  "record_stmt st ok w = w\<lparr>journal := journal w @ [(st, ok)]\<rparr>"

fun pairs :: "'a list \<Rightarrow> ('a \<times> 'a) list" where
  "pairs (a # b # r) = (a, b) # pairs r"
| "pairs r = []"

definition rows_of_host :: "uint \<Rightarrow> tables \<Rightarrow> Software list" where
  "rows_of_host h t = filter (\<lambda>r. (h, ID r) \<in> set (host_software t)) (software t)"

text \<open>
  Modelled from the spec: the effect of a data-changing statement on the transaction's
  view. The conflict-tolerant insert of a triple that is in the catalog writes nothing
  and reports \<open>zero_effect_id\<close>; otherwise it writes a row under the next generated
  id and reports that id. A batched deletion with no software id is malformed, and a
  membership insert that breaks the unique constraint or the reference to the catalog
  is refused.
\<close>

fun apply_stmt :: "stmt \<Rightarrow> world \<Rightarrow> kind + (sqlResult \<times> world)" where
  "apply_stmt (InsertIgnoreSoftware n v s) w =
     (if list_ex (same_triple n v s) (software (working w))
      then Inr (\<lparr>LastInsertId = zero_effect_id w, RowsAffected = 0\<rparr>, w)
      else Inr (\<lparr>LastInsertId = auto_increment w, RowsAffected = 1\<rparr>,
                w\<lparr>working := insert_row (auto_increment w) n v s (working w),
                  auto_increment := auto_increment w + 1\<rparr>))"
| "apply_stmt (DeleteHostSoftware h) w =
     (let keep = filter (\<lambda>m. fst m \<noteq> h) (host_software (working w))
      in Inr (\<lparr>LastInsertId = 0,
               RowsAffected = length (host_software (working w)) - length keep\<rparr>,
              w\<lparr>working := (working w)\<lparr>host_software := keep\<rparr>\<rparr>))"
| "apply_stmt (DeleteHostSoftwareIn args) w =
     (case args of
        [] \<Rightarrow> Inl Persistent
      | h # ids \<Rightarrow>
          (if ids = [] then Inl Persistent
           else
             (let keep = filter (\<lambda>m. \<not> (fst m = h \<and> snd m \<in> set ids)) (host_software (working w))
              in Inr (\<lparr>LastInsertId = 0,
                       RowsAffected = length (host_software (working w)) - length keep\<rparr>,
                      w\<lparr>working := (working w)\<lparr>host_software := keep\<rparr>\<rparr>))))"
| "apply_stmt (InsertHostSoftware args) w =
     (let rows = pairs args in
      if distinct rows
         \<and> list_all (\<lambda>m. m \<notin> set (host_software (working w))) rows
         \<and> list_all (\<lambda>m. snd m \<in> set (map ID (software (working w)))) rows
      then Inr (\<lparr>LastInsertId = 0, RowsAffected = length rows\<rparr>,
                w\<lparr>working := (working w)\<lparr>host_software := host_software (working w) @ rows\<rparr>\<rparr>)
      else Inl Persistent)"
| "apply_stmt st w = Inr (\<lparr>LastInsertId = 0, RowsAffected = 0\<rparr>, w)"

text \<open>
  Modelled from the spec: \<^verbatim>\<open>tx.Exec\<close>, and \<^verbatim>\<open>Select\<close> on the transaction (which
  reads its view) and on the plain handle (which reads the durable state).
\<close>

definition tx_Exec :: "stmt \<Rightarrow> world \<Rightarrow> (error + sqlResult) \<times> world" where
  "tx_Exec st w =
     (case arrive w of
        (Some k, w1) \<Rightarrow> (Inl (StoreError k), record_stmt st False w1)
      | (None, w1) \<Rightarrow>
          (case apply_stmt st w1 of
             Inl k \<Rightarrow> (Inl (StoreError k), record_stmt st False w1)
           | Inr (res, w2) \<Rightarrow> (Inr res, record_stmt st True w2)))"

definition tx_Select_id :: "string \<Rightarrow> string \<Rightarrow> string \<Rightarrow> world \<Rightarrow> (error + int64 list) \<times> world" where
  "tx_Select_id n v s w =
     (case arrive w of
        (Some k, w1) \<Rightarrow> (Inl (StoreError k), record_stmt (SelectSoftwareId n v s) False w1)
      | (None, w1) \<Rightarrow>
          (Inr (map ID (filter (same_triple n v s) (software (working w1)))),
           record_stmt (SelectSoftwareId n v s) True w1))"

definition tx_Select_software :: "uint \<Rightarrow> world \<Rightarrow> (error + Software list) \<times> world" where
  "tx_Select_software h w =
     (case arrive w of
        (Some k, w1) \<Rightarrow> (Inl (StoreError k), record_stmt (SelectHostSoftware h) False w1)
      | (None, w1) \<Rightarrow>
          (Inr (rows_of_host h (working w1)), record_stmt (SelectHostSoftware h) True w1))"

definition db_Select_software :: "uint \<Rightarrow> world \<Rightarrow> (error + Software list) \<times> world" where
  "db_Select_software h w =
     (case arrive w of
        (Some k, w1) \<Rightarrow> (Inl (StoreError k), record_stmt (SelectHostSoftware h) False w1)
      | (None, w1) \<Rightarrow>
          (Inr (rows_of_host h (committed w1)), record_stmt (SelectHostSoftware h) True w1))"

text \<open>
  Modelled from the spec: opening, committing and rolling back the transaction.
  Opening and rolling back always succeed; a commit can fail like any statement, and the transaction's writes
  are then lost.
\<close>

definition Beginx :: "world \<Rightarrow> world" where
  "Beginx w = record_stmt Begin True (w\<lparr>working := committed w\<rparr>)"

definition tx_Rollback :: "world \<Rightarrow> world" where
  "tx_Rollback w = record_stmt Rollback True (w\<lparr>working := committed w\<rparr>)"

definition tx_Commit :: "world \<Rightarrow> error option \<times> world" where
  "tx_Commit w =
     (case arrive w of
        (Some k, w1) \<Rightarrow> (Some (StoreError k), record_stmt Commit False (w1\<lparr>working := committed w1\<rparr>))
      | (None, w1) \<Rightarrow> (None, record_stmt Commit True (w1\<lparr>committed := working w1\<rparr>)))"

text \<open>
  Modelled from the spec: \<^verbatim>\<open>withRetryTxx\<close> is not among the sources. It opens a
  transaction and runs the body; an error of the body rolls the transaction back; a
  transient error runs the whole body again in a new transaction, up to a fixed number
  of attempts (\<open>retries w + 1\<close>), after which the last error goes to the caller; any
  other error goes to the caller at once. A panic of the body ends the call.
\<close>

definition operation ::
  "(world \<Rightarrow> panic + (error option \<times> world)) \<Rightarrow> world \<Rightarrow> panic + (error option \<times> world)" where
  "operation fn w =
     (case fn (Beginx w) of
        Inl p \<Rightarrow> Inl p
      | Inr (Some err, w1) \<Rightarrow> Inr (Some err, tx_Rollback w1)
      | Inr (None, w1) \<Rightarrow> Inr (tx_Commit w1))"

fun retry ::
  "nat \<Rightarrow> (world \<Rightarrow> panic + (error option \<times> world)) \<Rightarrow> world \<Rightarrow> panic + (error option \<times> world)" where
  "retry 0 fn w = operation fn w"
| "retry (Suc n) fn w =
     (case operation fn w of
        Inl p \<Rightarrow> Inl p
      | Inr (None, w1) \<Rightarrow> Inr (None, w1)
      | Inr (Some err, w1) \<Rightarrow>
          (if retryableError err then retry n fn w1 else Inr (Some err, w1)))"

definition withRetryTxx ::
  "(world \<Rightarrow> panic + (error option \<times> world)) \<Rightarrow> world \<Rightarrow> panic + (error option \<times> world)" where
  "withRetryTxx fn w = retry (retries w) fn w"

section \<open>The datastore's operations\<close>

text \<open>
  The receiver \<^verbatim>\<open>d\<close> and the handle \<^verbatim>\<open>tx\<close> both stand for the one store; it is the
  last argument of each operation and comes back with the result. A Go
  \<^verbatim>\<open>(value, error)\<close> result is a sum with the error on the left, a plain \<^verbatim>\<open>error\<close>
  result is an \<open>error option\<close> with \<open>None\<close> for \<^verbatim>\<open>nil\<close>, and an operation that can
  panic returns the panic on the left of an outer sum.
\<close>

datatype txref = NoTx | Tx

definition range_keys :: "'v gomap \<Rightarrow> world \<Rightarrow> string list \<times> world" where
  "range_keys m w =
     (case ranges w of
        [] \<Rightarrow> (map fst m, w)
      | c # cs \<Rightarrow> (permute c (map fst m), w\<lparr>ranges := cs\<rparr>))"

definition hostSoftwareFromHostID :: "txref \<Rightarrow> uint \<Rightarrow> world \<Rightarrow> (error + Software list) \<times> world" where
  "hostSoftwareFromHostID tx hid w =
     (let selectFunc = (case tx of NoTx \<Rightarrow> db_Select_software | Tx \<Rightarrow> tx_Select_software) in
      case selectFunc hid w of
        (Inl err, w1) \<Rightarrow> (Inl (Wrap err ''load host software''), w1)
      | (Inr result, w1) \<Rightarrow> (Inr result, w1))"

text \<open>
  \<^verbatim>\<open>LoadHostSoftware\<close>: the struct literal \<^verbatim>\<open>fleet.HostSoftware{Modified: false}\<close>
  leaves \<^verbatim>\<open>Software\<close> at its zero value, the nil slice.
\<close>

definition LoadHostSoftware :: "Host \<Rightarrow> world \<Rightarrow> error option \<times> Host \<times> world" where
  "LoadHostSoftware host w =
     (let host1 = host\<lparr>HostSoftware := \<lparr>Modified = False, Software = []\<rparr>\<rparr> in
      case hostSoftwareFromHostID NoTx (HostID host1) w of
        (Inl err, w1) \<Rightarrow> (Some err, host1, w1)
      | (Inr software', w1) \<Rightarrow>
          (None, host1\<lparr>HostSoftware := (HostSoftware host1)\<lparr>Software := software'\<rparr>\<rparr>, w1))"

text \<open>
  \<^verbatim>\<open>getOrGenerateSoftwareId\<close>. \<^verbatim>\<open>result.LastInsertId()\<close> of the MySQL driver never
  returns an error.
\<close>

definition getOrGenerateSoftwareId :: "Software \<Rightarrow> world \<Rightarrow> (error + uint) \<times> world" where
  "getOrGenerateSoftwareId s tx =
     (case tx_Select_id (Name s) (Version s) (Source s) tx of
        (Inl err, tx1) \<Rightarrow> (Inl err, tx1)
      | (Inr existingId, tx1) \<Rightarrow>
          (case existingId of
             i # rest \<Rightarrow> (Inr i, tx1)
           | [] \<Rightarrow>
               (case tx_Exec (InsertIgnoreSoftware (Name s) (Version s) (Source s)) tx1 of
                  (Inl err, tx2) \<Rightarrow> (Inl (Wrap err ''insert software''), tx2)
                | (Inr result, tx2) \<Rightarrow> (Inr (LastInsertId result), tx2))))"

text \<open>The loop of \<^verbatim>\<open>deleteUninstalledHostSoftware\<close> over the keys of the current map.\<close>

fun collectDeletes :: "uint gomap \<Rightarrow> bool gomap \<Rightarrow> uint list \<Rightarrow> string list \<Rightarrow> uint list" where
  "collectDeletes currentIdmap incomingBitmap deletesHostSoftware [] = deletesHostSoftware"
| "collectDeletes currentIdmap incomingBitmap deletesHostSoftware (currentKey # keys) =
     collectDeletes currentIdmap incomingBitmap
       (if map_of incomingBitmap currentKey = None
        then deletesHostSoftware @ [read_or_zero currentIdmap currentKey]
        else deletesHostSoftware)
       keys"

definition deleteUninstalledHostSoftware ::
  "uint \<Rightarrow> uint gomap \<Rightarrow> bool gomap \<Rightarrow> world \<Rightarrow> error option \<times> world" where
  "deleteUninstalledHostSoftware hostID currentIdmap incomingBitmap tx =
     (case range_keys currentIdmap tx of
        (keys, tx1) \<Rightarrow>
          (let deletesHostSoftware = collectDeletes currentIdmap incomingBitmap [hostID] keys in
           if length deletesHostSoftware \<le> 1 then (None, tx1)
           else
             (case tx_Exec (DeleteHostSoftwareIn deletesHostSoftware) tx1 of
                (Inl err, tx2) \<Rightarrow> (Some (Wrap err ''delete host software''), tx2)
              | (Inr result, tx2) \<Rightarrow> (None, tx2))))"

text \<open>
  The loop of \<^verbatim>\<open>insertNewInstalledHostSoftware\<close> over the keys of the incoming
  map; it returns the error of the first resolution that fails.
\<close>

fun collectInserts ::
  "uint \<Rightarrow> uint gomap \<Rightarrow> uint list \<Rightarrow> string list \<Rightarrow> world \<Rightarrow> panic + ((error + uint list) \<times> world)" where
  "collectInserts hostID currentIdmap insertsHostSoftware [] tx = Inr (Inr insertsHostSoftware, tx)"
| "collectInserts hostID currentIdmap insertsHostSoftware (s # keys) tx =
     (if map_of currentIdmap s = None
      then
        (case uniqueStringToSoftware s of
           Inl p \<Rightarrow> Inl p
         | Inr sw \<Rightarrow>
             (case getOrGenerateSoftwareId sw tx of
                (Inl err, tx1) \<Rightarrow> Inr (Inl err, tx1)
              | (Inr sid, tx1) \<Rightarrow>
                  collectInserts hostID currentIdmap (insertsHostSoftware @ [hostID, sid]) keys tx1))
      else collectInserts hostID currentIdmap insertsHostSoftware keys tx)"

definition insertNewInstalledHostSoftware ::
  "uint \<Rightarrow> uint gomap \<Rightarrow> bool gomap \<Rightarrow> world \<Rightarrow> panic + (error option \<times> world)" where
  "insertNewInstalledHostSoftware hostID currentIdmap incomingBitmap tx =
     (case range_keys incomingBitmap tx of
        (keys, tx1) \<Rightarrow>
          (case collectInserts hostID currentIdmap [] keys tx1 of
             Inl p \<Rightarrow> Inl p
           | Inr (Inl err, tx2) \<Rightarrow> Inr (Some err, tx2)
           | Inr (Inr insertsHostSoftware, tx2) \<Rightarrow>
               (if length insertsHostSoftware > 0
                then
                  (case tx_Exec (InsertHostSoftware insertsHostSoftware) tx2 of
                     (Inl err, tx3) \<Rightarrow> Inr (Some (Wrap err ''insert host software''), tx3)
                   | (Inr result, tx3) \<Rightarrow> Inr (None, tx3))
                else Inr (None, tx2))))"

definition applyChangesForNewSoftware :: "Host \<Rightarrow> world \<Rightarrow> panic + (error option \<times> world)" where
  "applyChangesForNewSoftware host tx =
     (case hostSoftwareFromHostID Tx (HostID host) tx of
        (Inl err, tx1) \<Rightarrow> Inr (Some (Wrap err ''loading current software for host''), tx1)
      | (Inr storedCurrentSoftware, tx1) \<Rightarrow>
          (if nothingChanged storedCurrentSoftware (Software (HostSoftware host))
           then Inr (None, tx1)
           else
             (let current = softwareSliceToIdMap storedCurrentSoftware;
                  incoming = softwareSliceToSet (Software (HostSoftware host)) in
              case deleteUninstalledHostSoftware (HostID host) current incoming tx1 of
                (Some err, tx2) \<Rightarrow> Inr (Some err, tx2)
              | (None, tx2) \<Rightarrow>
                  insertNewInstalledHostSoftware (HostID host) current incoming tx2)))"

text \<open>The function literal \<^verbatim>\<open>SaveHostSoftware\<close> hands to \<^verbatim>\<open>withRetryTxx\<close>.\<close>

definition saveBody :: "Host \<Rightarrow> world \<Rightarrow> panic + (error option \<times> world)" where
  "saveBody host tx =
     (if length (Software (HostSoftware host)) = 0
      then
        (case tx_Exec (DeleteHostSoftware (HostID host)) tx of
           (Inl err, tx1) \<Rightarrow> Inr (Some (Wrap err ''clear join table entries''), tx1)
         | (Inr result, tx1) \<Rightarrow> Inr (None, tx1))
      else applyChangesForNewSoftware host tx)"

definition SaveHostSoftware :: "Host \<Rightarrow> world \<Rightarrow> panic + (error option \<times> Host \<times> world)" where
  "SaveHostSoftware host w =
     (if \<not> Modified (HostSoftware host) then Inr (None, host, w)
      else
        (case withRetryTxx (saveBody host) w of
           Inl p \<Rightarrow> Inl p
         | Inr (Some err, w1) \<Rightarrow> Inr (Some (Wrap err ''save host software''), host, w1)
         | Inr (None, w1) \<Rightarrow>
             Inr (None, host\<lparr>HostSoftware := (HostSoftware host)\<lparr>Modified := False\<rparr>\<rparr>, w1)))"

section \<open>Reading the journal\<close>

text \<open>
  The statements of a journal other than transaction control, the number of
  transactions opened, and the number of transient failures still scheduled.
\<close>

definition transaction_control :: "stmt \<Rightarrow> bool" where
  "transaction_control st = (st = Begin \<or> st = Commit \<or> st = Rollback)"

definition data_statements :: "world \<Rightarrow> stmt list" where
  "data_statements w = filter (\<lambda>st. \<not> transaction_control st) (map fst (journal w))"

definition attempts :: "world \<Rightarrow> nat" where
  "attempts w = count_list (map fst (journal w)) Begin"

definition transient_failures :: "world \<Rightarrow> nat" where
  "transient_failures w = count_list (schedule w) (Fails Transient)"

section \<open>Example values\<close>

text \<open>The triples \<open>{A,1,apt}\<close> and \<open>{B,2,npm}\<close>, and one with an over-long name and source.\<close>

definition sw_A :: Software where
  "sw_A = \<lparr>ID = 0, Name = ''A'', Version = ''1'', Source = ''apt''\<rparr>"

definition sw_B :: Software where
  "sw_B = \<lparr>ID = 0, Name = ''B'', Version = ''2'', Source = ''npm''\<rparr>"

definition sw_long :: Software where
  "sw_long = \<lparr>ID = 7, Name = replicate 256 (CHR ''n''), Version = ''1'', Source = replicate 65 (CHR ''s'')\<rparr>"

text \<open>
  A store in which host 5 has \<open>{A,1,apt}\<close> installed, hosts staging \<open>[{A,1,apt}]\<close>
  and the empty collection, the same store with a first statement that fails
  transiently and with one that fails persistently, and an empty store where another
  session commits \<open>{A,1,apt}\<close> between the lookup and the insert.
\<close>

definition store_A :: tables where
  "store_A = \<lparr>software = [\<lparr>ID = 1, Name = ''A'', Version = ''1'', Source = ''apt''\<rparr>],
              host_software = [(5, 1)]\<rparr>"

definition store_empty :: tables where
  "store_empty = \<lparr>software = [], host_software = []\<rparr>"

definition world_A :: world where
  "world_A = \<lparr>committed = store_A, working = store_A, auto_increment = 2, zero_effect_id = 0,
              retries = 2, journal = [], schedule = [], ranges = []\<rparr>"

definition host_A :: Host where
  "host_A = \<lparr>HostID = 5, HostSoftware = \<lparr>Modified = True, Software = [sw_A]\<rparr>\<rparr>"

definition host_D :: Host where
  "host_D = \<lparr>HostID = 5, HostSoftware = \<lparr>Modified = True, Software = []\<rparr>\<rparr>"

definition world_D :: world where
  "world_D = world_A\<lparr>schedule := [Fails Transient]\<rparr>"

definition world_race :: world where
  "world_race = \<lparr>committed = store_empty, working = store_empty, auto_increment = 1,
                 zero_effect_id = 0, retries = 2, journal = [],
                 schedule = [Proceed, Raced [(''A'', ''1'', ''apt'')]], ranges = []\<rparr>"

definition world_F :: world where
  "world_F = world_A\<lparr>schedule := [Fails Persistent]\<rparr>"

text \<open>The hosts and stores these runs end in.\<close>

definition host_D1 :: Host where
  "host_D1 = \<lparr>HostID = 5, HostSoftware = \<lparr>Modified = False, Software = []\<rparr>\<rparr>"

definition store_D1 :: tables where
  "store_D1 = \<lparr>software = [\<lparr>ID = 1, Name = ''A'', Version = ''1'', Source = ''apt''\<rparr>],
               host_software = []\<rparr>"

definition world_E1 :: world where
  "world_E1 = world_A\<lparr>committed := store_D1, working := store_D1,
                      journal := [(Begin, True), (DeleteHostSoftware 5, True), (Commit, True)]\<rparr>"

definition world_D1 :: world where
  "world_D1 = world_A\<lparr>committed := store_D1, working := store_D1,
                      journal := [(Begin, True), (DeleteHostSoftware 5, False), (Rollback, True),
                                  (Begin, True), (DeleteHostSoftware 5, True), (Commit, True)]\<rparr>"

definition world_F1 :: world where
  "world_F1 = world_A\<lparr>journal := [(Begin, True), (DeleteHostSoftware 5, False), (Rollback, True)]\<rparr>"

definition world_race1 :: world where
  "world_race1 = \<lparr>committed = store_D1, working = store_D1, auto_increment = 2,
                  zero_effect_id = 0, retries = 2,
                  journal = [(SelectSoftwareId ''A'' ''1'' ''apt'', True),
                             (InsertIgnoreSoftware ''A'' ''1'' ''apt'', True)],
                  schedule = [], ranges = []\<rparr>"

definition host_A1 :: Host where
  "host_A1 = \<lparr>HostID = 5, HostSoftware = \<lparr>Modified = False, Software = [sw_A]\<rparr>\<rparr>"

definition world_A1 :: world where
  "world_A1 = world_A\<lparr>journal := [(Begin, True), (SelectHostSoftware 5, True), (Commit, True)]\<rparr>"

text \<open>
  A host of id 5 with \<open>[{B,2,npm}]\<close> staged and the Modified flag set, and what
  loading its software leaves when the read succeeds and when it fails.
\<close>

definition host_L :: Host where
  "host_L = \<lparr>HostID = 5, HostSoftware = \<lparr>Modified = True, Software = [sw_B]\<rparr>\<rparr>"

definition host_L1 :: Host where
  "host_L1 = \<lparr>HostID = 5,
              HostSoftware = \<lparr>Modified = False,
                Software = [\<lparr>ID = 1, Name = ''A'', Version = ''1'', Source = ''apt''\<rparr>]\<rparr>\<rparr>"

definition host_L0 :: Host where
  "host_L0 = \<lparr>HostID = 5, HostSoftware = \<lparr>Modified = False, Software = []\<rparr>\<rparr>"

definition world_L1 :: world where
  "world_L1 = world_A\<lparr>journal := [(SelectHostSoftware 5, True)]\<rparr>"

definition world_L0 :: world where
  "world_L0 = world_A\<lparr>journal := [(SelectHostSoftware 5, False)]\<rparr>"

section \<open>The key codec\<close>

lemma Split_no_separator: "c \<notin> set xs \<Longrightarrow> strings_Split xs c = [xs]"
  by (induction xs) auto

lemma Split_nonempty: "strings_Split xs c \<noteq> []"
  by (induction xs) (auto split: list.splits)

lemma Split_append_separator:
  "c \<notin> set xs \<Longrightarrow> strings_Split (xs @ c # ys) c = xs # strings_Split ys c"
  by (induction xs) auto

lemma length_Split: "length (strings_Split s c) = Suc (count_list s c)"
  by (induction s) (auto split: list.splits simp: Split_nonempty)

lemma encode_unfold:
  "softwareToUniqueString t = Name t @ separator # Version t @ separator # Source t"
  by (simp add: softwareToUniqueString_def)

lemma Split_encode:
  assumes "separator \<notin> set (Name t)" "separator \<notin> set (Version t)" "separator \<notin> set (Source t)"
  shows "strings_Split (softwareToUniqueString t) separator = [Name t, Version t, Source t]"
  using assms by (simp add: encode_unfold Split_append_separator Split_no_separator)

lemma decode_encode:
  assumes "separator \<notin> set (Name t)" "separator \<notin> set (Version t)" "separator \<notin> set (Source t)"
  shows "uniqueStringToSoftware (softwareToUniqueString t) =
           Inr \<lparr>ID = 0,
                Name = truncateString (Name t) maxSoftwareNameLen,
                Version = truncateString (Version t) maxSoftwareVersionLen,
                Source = truncateString (Source t) maxSoftwareSourceLen\<rparr>"
  by (simp add: uniqueStringToSoftware_def Split_encode [OF assms] index_def)

text \<open>
  C5. A triple whose name and version have at most 255 bytes, whose source has at
  most 64 bytes and whose fields do not contain the separator byte is decoded from its
  key unchanged, apart from the id, which the decoder leaves at zero.
\<close>

theorem decode_encode_roundtrip:
  assumes "length (Name t) \<le> 255" "length (Version t) \<le> 255" "length (Source t) \<le> 64"
    and "separator \<notin> set (Name t)" "separator \<notin> set (Version t)" "separator \<notin> set (Source t)"
  shows "uniqueStringToSoftware (softwareToUniqueString t) = Inr (t\<lparr>ID := 0\<rparr>)"
  using assms(1-3)
  by (simp add: decode_encode [OF assms(4-6)] truncateString_def maxSoftwareNameLen_def
      maxSoftwareVersionLen_def maxSoftwareSourceLen_def)

theorem decode_encode_roundtrip_witness:
  "length (Name (sw_A\<lparr>ID := 7\<rparr>)) \<le> 255 \<and> separator \<notin> set (Name (sw_A\<lparr>ID := 7\<rparr>))
   \<and> uniqueStringToSoftware (softwareToUniqueString (sw_A\<lparr>ID := 7\<rparr>)) = Inr sw_A"
  using decode_encode_roundtrip [of "sw_A\<lparr>ID := 7\<rparr>"]
  by (simp add: sw_A_def separator_def)

text \<open>
  C6. For a triple without separator bytes of which some field is over its limit,
  decoding the key gives the triple with every over-long field cut to its limit (255,
  255 and 64 bytes) and the other fields as they were; the key itself holds the three
  fields whole.
\<close>

theorem decode_encode_truncates:
  assumes "separator \<notin> set (Name t)" "separator \<notin> set (Version t)" "separator \<notin> set (Source t)"
    and "255 < length (Name t) \<or> 255 < length (Version t) \<or> 64 < length (Source t)"
  shows "uniqueStringToSoftware (softwareToUniqueString t) =
           Inr \<lparr>ID = 0,
                Name = (if 255 < length (Name t) then take 255 (Name t) else Name t),
                Version = (if 255 < length (Version t) then take 255 (Version t) else Version t),
                Source = (if 64 < length (Source t) then take 64 (Source t) else Source t)\<rparr>
         \<and> softwareToUniqueString t = Name t @ [separator] @ Version t @ [separator] @ Source t"
proof -
  have "softwareToUniqueString t = Name t @ [separator] @ Version t @ [separator] @ Source t"
    by (simp add: encode_unfold)
  moreover have "uniqueStringToSoftware (softwareToUniqueString t) =
           Inr \<lparr>ID = 0,
                Name = (if 255 < length (Name t) then take 255 (Name t) else Name t),
                Version = (if 255 < length (Version t) then take 255 (Version t) else Version t),
                Source = (if 64 < length (Source t) then take 64 (Source t) else Source t)\<rparr>"
    by (simp add: decode_encode [OF assms(1-3)] truncateString_def maxSoftwareNameLen_def
      maxSoftwareVersionLen_def maxSoftwareSourceLen_def)
  ultimately show ?thesis by (rule_tac conjI)
qed

theorem decode_encode_truncates_witness:
  "255 < length (Name sw_long) \<and> separator \<notin> set (Name sw_long)
   \<and> uniqueStringToSoftware (softwareToUniqueString sw_long) =
       Inr \<lparr>ID = 0, Name = replicate 255 (CHR ''n''), Version = ''1'',
            Source = replicate 64 (CHR ''s'')\<rparr>"
  using decode_encode_truncates [of sw_long, THEN conjunct1]
  by (simp add: sw_long_def separator_def)

lemma count_encode: "2 \<le> count_list (softwareToUniqueString t) separator"
  by (simp add: encode_unfold count_list_append)

lemma decode_panics:
  "count_list s separator < 2 \<Longrightarrow>
     uniqueStringToSoftware s =
       Inl (IndexOutOfRange (Suc (count_list s separator)) (Suc (count_list s separator)))"
  by (cases "count_list s separator = 0")
     (auto simp: uniqueStringToSoftware_def index_def length_Split Let_def Split_nonempty)

lemma decode_returns:
  "2 \<le> count_list s separator \<Longrightarrow>
     uniqueStringToSoftware s =
       Inr \<lparr>ID = 0,
            Name = truncateString (strings_Split s separator ! 0) maxSoftwareNameLen,
            Version = truncateString (strings_Split s separator ! 1) maxSoftwareVersionLen,
            Source = truncateString (strings_Split s separator ! 2) maxSoftwareSourceLen\<rparr>"
  by (simp add: uniqueStringToSoftware_def index_def length_Split Let_def Split_nonempty)

text \<open>
  C9. The decoder reads the components 0, 1 and 2 of the split key whatever their
  number: on a string with fewer than two separator bytes the read of component 1 or
  2 is out of range and the decoder panics, on any other string it returns; every
  key the encoder produces has at least two separator bytes.
\<close>

theorem decode_defined_iff:
  "uniqueStringToSoftware s =
     (if count_list s separator < 2
      then Inl (IndexOutOfRange (Suc (count_list s separator)) (Suc (count_list s separator)))
      else Inr \<lparr>ID = 0,
            Name = truncateString (strings_Split s separator ! 0) maxSoftwareNameLen,
            Version = truncateString (strings_Split s separator ! 1) maxSoftwareVersionLen,
            Source = truncateString (strings_Split s separator ! 2) maxSoftwareSourceLen\<rparr>)
   \<and> 2 \<le> count_list (softwareToUniqueString t) separator"
  using decode_panics [of s] decode_returns [of s] count_encode [of t] by auto

section \<open>The set differ\<close>

lemma map_of_bitmap:
  "map_of (foldl (\<lambda>m s. AList.update (f s) v m) m0 xs) k =
     (if k \<in> f ` set xs then Some v else map_of m0 k)"
  by (induction xs arbitrary: m0) (auto simp: update_conv')

lemma allPresent_iff:
  "allPresent bm ys = (softwareToUniqueString ` set ys \<subseteq> dom (map_of bm))"
  by (induction ys) (auto simp: dom_def)

lemma nothingChanged_iff:
  "nothingChanged A B =
     (length A = length B \<and> softwareToUniqueString ` set B \<subseteq> softwareToUniqueString ` set A)"
  by (auto simp: nothingChanged_def allPresent_iff map_of_bitmap dom_def split: if_splits)

lemma nothingChanged_distinct:
  assumes "distinct (map softwareToUniqueString A)" "distinct (map softwareToUniqueString B)"
  shows "nothingChanged A B = (set (map softwareToUniqueString A) = set (map softwareToUniqueString B))"
proof
  assume "nothingChanged A B"
  then have len: "length A = length B"
    and sub: "set (map softwareToUniqueString B) \<subseteq> set (map softwareToUniqueString A)"
    by (simp_all add: nothingChanged_iff)
  have "card (set (map softwareToUniqueString A)) = length A"
    using assms(1) distinct_card by fastforce
  moreover have "card (set (map softwareToUniqueString B)) = length B"
    using assms(2) distinct_card by fastforce
  ultimately have "card (set (map softwareToUniqueString A)) \<le> card (set (map softwareToUniqueString B))"
    using len by simp
  with sub show "set (map softwareToUniqueString A) = set (map softwareToUniqueString B)"
    by (metis List.finite_set card_seteq)
next
  assume eq: "set (map softwareToUniqueString A) = set (map softwareToUniqueString B)"
  have "length A = card (set (map softwareToUniqueString A))"
    using assms(1) distinct_card by fastforce
  also have "\<dots> = card (set (map softwareToUniqueString B))" by (simp only: eq)
  also have "\<dots> = length B"
    using assms(2) distinct_card by fastforce
  finally show "nothingChanged A B"
    using eq by (simp add: nothingChanged_iff)
qed

text \<open>
  C4. When neither collection has two entries with the same key,
  \<open>nothingChanged\<close> holds exactly when the two collections have the same set of
  keys, and it is symmetric; collections of different length are never unchanged.
\<close>

theorem nothingChanged_set_equality:
  assumes "distinct (map softwareToUniqueString A)" "distinct (map softwareToUniqueString B)"
  shows "nothingChanged A B = (set (map softwareToUniqueString A) = set (map softwareToUniqueString B))
       \<and> nothingChanged A B = nothingChanged B A
       \<and> (length A \<noteq> length B \<longrightarrow> \<not> nothingChanged A B)"
  using nothingChanged_distinct [OF assms] nothingChanged_distinct [OF assms(2) assms(1)]
  by (auto simp: nothingChanged_iff)


theorem nothingChanged_set_equality_witness:
  "distinct (map softwareToUniqueString [sw_A, sw_B])
   \<and> distinct (map softwareToUniqueString [sw_B, sw_A])
   \<and> nothingChanged [sw_A, sw_B] [sw_B, sw_A]
   \<and> nothingChanged [sw_B, sw_A] [sw_A, sw_B]"
  using nothingChanged_set_equality [of "[sw_A, sw_B]" "[sw_B, sw_A]"]
  by (auto simp: sw_A_def sw_B_def softwareToUniqueString_def)

section \<open>The store and the transaction\<close>

lemma interfere_fields [simp]:
  "journal (interfere ts w) = journal w"
  "schedule (interfere ts w) = schedule w"
  "ranges (interfere ts w) = ranges w"
  "retries (interfere ts w) = retries w"
  "zero_effect_id (interfere ts w) = zero_effect_id w"
  "host_software (committed (interfere ts w)) = host_software (committed w)"
  "host_software (working (interfere ts w)) = host_software (working w)"
  by (induction ts w rule: interfere.induct) (simp_all add: insert_row_def)

lemma interfere_catalog:
  "prefix (software (committed w)) (software (committed (interfere ts w)))"
  "prefix (software (working w)) (software (working (interfere ts w)))"
proof (induction ts w rule: interfere.induct)
  case (1 w)
  { case 1 show ?case by simp next case 2 show ?case by simp }
next
  case (2 n v s ts w)
  { case 1 show ?case using "2.IH"(1) by (auto simp: insert_row_def dest: append_prefixD)
  next case 2 show ?case using "2.IH"(2) by (auto simp: insert_row_def dest: append_prefixD) }
qed

lemma arrive_fields:
  assumes "arrive w = (k, w1)"
  shows "journal w1 = journal w" "ranges w1 = ranges w" "retries w1 = retries w"
    "zero_effect_id w1 = zero_effect_id w"
    "host_software (committed w1) = host_software (committed w)"
    "host_software (working w1) = host_software (working w)"
  using assms by (auto simp: arrive_def split: list.splits outcome.splits)

lemma interfere_extends:
  "prefix xs (software (committed w)) \<Longrightarrow> prefix xs (software (committed (interfere ts w)))"
  "prefix ys (software (working w)) \<Longrightarrow> prefix ys (software (working (interfere ts w)))"
  using interfere_catalog [of w ts] by (auto intro: prefix_order.trans)

lemma arrive_catalog:
  assumes "arrive w = (k, w1)"
  shows "prefix (software (committed w)) (software (committed w1))"
    "prefix (software (working w)) (software (working w1))"
proof -
  consider "w1 = w" | os where "w1 = w\<lparr>schedule := os\<rparr>"
    | ts os where "w1 = interfere ts (w\<lparr>schedule := os\<rparr>)"
    using assms by (auto simp: arrive_def split: list.splits outcome.splits)
  then show "prefix (software (committed w)) (software (committed w1))"
    by cases (simp_all add: interfere_extends)
  consider "w1 = w" | os where "w1 = w\<lparr>schedule := os\<rparr>"
    | ts os where "w1 = interfere ts (w\<lparr>schedule := os\<rparr>)"
    using assms by (auto simp: arrive_def split: list.splits outcome.splits)
  then show "prefix (software (working w)) (software (working w1))"
    by cases (simp_all add: interfere_extends)
qed

lemma record_stmt_fields [simp]:
  "journal (record_stmt st ok w) = journal w @ [(st, ok)]"
  "committed (record_stmt st ok w) = committed w"
  "working (record_stmt st ok w) = working w"
  "schedule (record_stmt st ok w) = schedule w"
  "ranges (record_stmt st ok w) = ranges w"
  "retries (record_stmt st ok w) = retries w"
  by (simp_all add: record_stmt_def)

lemma arrive_schedule:
  assumes "arrive w = (k, w1)"
  shows "transient_failures w1 \<le> transient_failures w"
    and "k = Some Transient \<Longrightarrow> transient_failures w1 < transient_failures w"
  using assms
  by (auto simp: arrive_def transient_failures_def split: list.splits outcome.splits)

lemma apply_stmt_journal:
  "apply_stmt st w = Inr (res, w1) \<Longrightarrow> journal w1 = journal w"
  by (cases st) (auto simp: Let_def split: list.splits if_splits)

lemma tx_Exec_journal:
  assumes "tx_Exec st w = (r, w1)"
  shows "\<exists>ok. journal w1 = journal w @ [(st, ok)]"
proof -
  obtain k wa where a: "arrive w = (k, wa)" by (cases "arrive w")
  have j: "journal wa = journal w" by (rule arrive_fields(1) [OF a])
  show ?thesis
  proof (cases k)
    case (Some e)
    then show ?thesis using assms a j by (auto simp: tx_Exec_def)
  next
    case None
    show ?thesis
    proof (cases "apply_stmt st wa")
      case (Inl e)
      then show ?thesis using assms a j None by (auto simp: tx_Exec_def)
    next
      case (Inr p)
      obtain res wb where p: "p = (res, wb)" by (cases p)
      have "journal wb = journal w"
        using apply_stmt_journal [of st wa res wb] Inr p j by simp
      then show ?thesis using assms a None Inr p by (auto simp: tx_Exec_def)
    qed
  qed
qed

lemma tx_Commit_result:
  "\<exists>err w1. tx_Commit w = (err, w1) \<and> journal w1 \<noteq> []
     \<and> (err = None) = (last (journal w1) = (Commit, True))"
proof -
  obtain k wa where a: "arrive w = (k, wa)" by (cases "arrive w")
  show ?thesis by (cases k) (simp_all add: tx_Commit_def a)
qed

lemma operation_result:
  assumes "fn (Beginx w) = Inr (e, wa)"
  shows "\<exists>err w1. operation fn w = Inr (err, w1) \<and> journal w1 \<noteq> []
     \<and> (err = None) = (last (journal w1) = (Commit, True))"
proof (cases e)
  case None
  then show ?thesis using tx_Commit_result [of wa] assms by (auto simp: operation_def)
next
  case (Some err)
  then show ?thesis using assms by (simp add: operation_def tx_Rollback_def)
qed

lemma retry_result:
  assumes "\<And>w. \<exists>e wa. fn w = Inr (e, wa)"
  shows "\<exists>err w1. retry n fn w = Inr (err, w1) \<and> journal w1 \<noteq> []
     \<and> (err = None) = (last (journal w1) = (Commit, True))"
proof (induction n arbitrary: w)
  case 0
  obtain e wa where "fn (Beginx w) = Inr (e, wa)" using assms by blast
  then show ?case using operation_result [of fn w e wa] by simp
next
  case (Suc n)
  obtain e wa where "fn (Beginx w) = Inr (e, wa)" using assms by blast
  from operation_result [of fn w e wa, OF this] obtain err w1 where
    o: "operation fn w = Inr (err, w1)" "journal w1 \<noteq> []"
       "(err = None) = (last (journal w1) = (Commit, True))" by blast
  show ?case
  proof (cases err)
    case None
    then show ?thesis using o by simp
  next
    case (Some x)
    then show ?thesis using o Suc [of w1] by simp
  qed
qed

lemmas store_defs = arrive_def record_stmt_def tx_Exec_def tx_Select_id_def tx_Select_software_def
  db_Select_software_def Beginx_def tx_Rollback_def tx_Commit_def operation_def withRetryTxx_def
  insert_row_def same_triple_def rows_of_host_def

section \<open>Loading a host's software\<close>

lemma db_Select_software_reply:
  "db_Select_software h w =
     (case arrive w of
        (Some k, w1) \<Rightarrow> (Inl (StoreError k), record_stmt (SelectHostSoftware h) False w1)
      | (None, w1) \<Rightarrow>
          (Inr (rows_of_host h (committed w1)), record_stmt (SelectHostSoftware h) True w1))"
  by (simp add: db_Select_software_def)

text \<open>
  C10. \<open>LoadHostSoftware\<close> resets the host's software state before it reads: whatever
  was staged and whatever the Modified flag was, after the call the flag is false.
  The call sends exactly one statement, the read of the host's software on the plain
  handle, and it succeeds exactly when the store does not fail that read: then the
  collection is what the durable store holds for the host at the read; when the store
  fails the read the collection is empty and the store's error comes back wrapped with
  "load host software". The host id and the membership rows are as before, and the
  catalog rows stay in place.
\<close>

theorem LoadHostSoftware_resets:
  "case LoadHostSoftware host w of
     (err, host1, w1) \<Rightarrow>
       HostID host1 = HostID host
       \<and> Modified (HostSoftware host1) = False
       \<and> Software (HostSoftware host1) =
           (if err = None then rows_of_host (HostID host) (committed w1) else [])
       \<and> (err = None \<or> (\<exists>k. err = Some (Wrap (StoreError k) ''load host software'')))
       \<and> host_software (committed w1) = host_software (committed w)
       \<and> err = (case fst (arrive w) of
                  None \<Rightarrow> None
                | Some k \<Rightarrow> Some (Wrap (StoreError k) ''load host software''))
       \<and> (err = None) = (fst (arrive w) = None)
       \<and> committed w1 = committed (snd (arrive w))
       \<and> prefix (software (committed w)) (software (committed w1))
       \<and> journal w1 = journal w @ [(SelectHostSoftware (HostID host), err = None)]"
proof -
  obtain k wa where a: "arrive w = (k, wa)" by (cases "arrive w")
  note af = arrive_fields [OF a] and ac = arrive_catalog [OF a]
  show ?thesis
  proof (cases k)
    case None
    then show ?thesis using af ac
      by (simp add: LoadHostSoftware_def hostSoftwareFromHostID_def db_Select_software_reply a)
  next
    case (Some kind)
    then show ?thesis using af ac
      by (simp add: LoadHostSoftware_def hostSoftwareFromHostID_def db_Select_software_reply a)
  qed
qed

theorem LoadHostSoftware_resets_witness:
  "LoadHostSoftware host_L world_A = (None, host_L1, world_L1)
   \<and> Software (HostSoftware host_L1) = rows_of_host 5 (committed world_A)
   \<and> LoadHostSoftware host_L world_F =
       (Some (Wrap (StoreError Persistent) ''load host software''), host_L0, world_L0)"
  using LoadHostSoftware_resets [of host_L world_A] LoadHostSoftware_resets [of host_L world_F]
  by (simp add: LoadHostSoftware_def hostSoftwareFromHostID_def host_L_def host_L1_def
      host_L0_def world_L1_def world_L0_def world_A_def world_F_def store_A_def sw_B_def
      store_defs)

section \<open>Map iteration and the delete pass\<close>

lemma set_permute [simp]: "set (permute c xs) = set xs"
proof (induction c xs rule: permute.induct)
  case (3 i c x xs)
  let ?ys = "x # xs"
  let ?j = "i mod length ?ys"
  have j: "?j < length ?ys" by simp
  have "set ?ys = set (take ?j ?ys @ ?ys ! ?j # drop (Suc ?j) ?ys)"
    using id_take_nth_drop [OF j] by simp
  also have "\<dots> = insert (?ys ! ?j) (set (take ?j ?ys @ drop (Suc ?j) ?ys))"
    by simp
  finally show ?case
    using "3.IH" [of ?j] by (simp add: Let_def)
qed simp_all

lemma range_keys_result:
  assumes "range_keys m w = (ks, w1)"
  shows "set ks = fst ` set m" "journal w1 = journal w" "committed w1 = committed w"
    "working w1 = working w" "schedule w1 = schedule w" "retries w1 = retries w"
  using assms by (force simp: range_keys_def split: list.splits)+

lemma collectDeletes_present:
  "\<forall>k\<in>set ks. map_of inc k \<noteq> None \<Longrightarrow> collectDeletes cur inc acc ks = acc"
  by (induction ks arbitrary: acc) auto

lemma collectDeletes_extends: "\<exists>ids. collectDeletes cur inc acc ks = acc @ ids"
  by (induction ks arbitrary: acc) (auto, metis append.assoc)

text \<open>
  C8. When every key of the current map is among the incoming keys, the delete pass
  returns without sending a statement: journal, data and schedule are as before. In
  every case the only statement the pass can send is one batched deletion whose
  argument list is the host id followed by at least one software id, so a deletion
  with an empty identifier list is never built.
\<close>

theorem delete_pass_skips_empty_predicate:
  "(set (map fst currentIdmap) \<subseteq> set (map fst incomingBitmap) \<longrightarrow>
      (\<exists>tx1. deleteUninstalledHostSoftware hostID currentIdmap incomingBitmap tx = (None, tx1)
         \<and> journal tx1 = journal tx \<and> committed tx1 = committed tx
         \<and> working tx1 = working tx \<and> schedule tx1 = schedule tx))
   \<and> (\<exists>err tx1. deleteUninstalledHostSoftware hostID currentIdmap incomingBitmap tx = (err, tx1)
         \<and> (journal tx1 = journal tx
            \<or> (\<exists>ids ok. ids \<noteq> []
                 \<and> journal tx1 = journal tx @ [(DeleteHostSoftwareIn (hostID # ids), ok)])))"
proof -
  obtain ks ta where r: "range_keys currentIdmap tx = (ks, ta)"
    by (cases "range_keys currentIdmap tx")
  note rk = range_keys_result [OF r]
  obtain ids where c: "collectDeletes currentIdmap incomingBitmap [hostID] ks = hostID # ids"
    using collectDeletes_extends [of currentIdmap incomingBitmap "[hostID]" ks] by auto
  have first: "deleteUninstalledHostSoftware hostID currentIdmap incomingBitmap tx = (None, ta)"
    if "set (map fst currentIdmap) \<subseteq> set (map fst incomingBitmap)"
  proof -
    have "\<forall>k\<in>set ks. map_of incomingBitmap k \<noteq> None"
      using that rk(1) by (auto simp: map_of_eq_None_iff)
    then have "collectDeletes currentIdmap incomingBitmap [hostID] ks = [hostID]"
      by (rule collectDeletes_present)
    then show ?thesis by (simp add: deleteUninstalledHostSoftware_def r)
  qed
  have second: "\<exists>err tx1. deleteUninstalledHostSoftware hostID currentIdmap incomingBitmap tx = (err, tx1)
         \<and> (journal tx1 = journal tx
            \<or> (\<exists>ids ok. ids \<noteq> []
                 \<and> journal tx1 = journal tx @ [(DeleteHostSoftwareIn (hostID # ids), ok)]))"
  proof (cases "ids = []")
    case True
    then show ?thesis using c rk(2) by (simp add: deleteUninstalledHostSoftware_def r)
  next
    case False
    obtain res tb where e: "tx_Exec (DeleteHostSoftwareIn (hostID # ids)) ta = (res, tb)"
      by (cases "tx_Exec (DeleteHostSoftwareIn (hostID # ids)) ta")
    from tx_Exec_journal [OF e] obtain ok where
      "journal tb = journal tx @ [(DeleteHostSoftwareIn (hostID # ids), ok)]"
      using rk(2) by auto
    then show ?thesis using False c e
      by (cases res) (auto simp: deleteUninstalledHostSoftware_def r)
  qed
  show ?thesis using first second rk by blast
qed

theorem delete_pass_skips_empty_predicate_witness:
  "set (map fst (softwareSliceToIdMap [sw_A\<lparr>ID := 1\<rparr>])) \<subseteq> set (map fst (softwareSliceToSet [sw_A, sw_B]))
   \<and> deleteUninstalledHostSoftware 5 (softwareSliceToIdMap [sw_A\<lparr>ID := 1\<rparr>])
         (softwareSliceToSet [sw_A, sw_B]) world_A = (None, world_A)"
  using delete_pass_skips_empty_predicate
    [of "softwareSliceToIdMap [sw_A\<lparr>ID := 1\<rparr>]" "softwareSliceToSet [sw_A, sw_B]" 5 world_A]
  by (simp add: deleteUninstalledHostSoftware_def range_keys_def softwareSliceToIdMap_def
      softwareSliceToSet_def softwareToUniqueString_def sw_A_def sw_B_def world_A_def
      store_A_def)

section \<open>Resolving a catalog identifier\<close>

text \<open>
  C1. The specification asks that an insert with zero effect is followed by a fresh
  lookup of the triple. Evaluated on the empty store where another session commits
  \<open>{A,1,apt}\<close> under id 1 between the lookup and the insert, the code sends the
  lookup and the insert and nothing more, and returns the driver's last-insert-id
  for the ignored insert, 0, while the catalog row has id 1.
\<close>

theorem getOrGenerateSoftwareId_ignored_insert:
  "getOrGenerateSoftwareId sw_A world_race = (Inr 0, world_race1)
   \<and> map ID (filter (same_triple ''A'' ''1'' ''apt'') (software (working world_race1))) = [1]
   \<and> map fst (journal world_race1) =
       [SelectSoftwareId ''A'' ''1'' ''apt'', InsertIgnoreSoftware ''A'' ''1'' ''apt'']"
  by (simp add: getOrGenerateSoftwareId_def sw_A_def world_race_def world_race1_def
      store_empty_def store_D1_def store_defs)

section \<open>Saving a host's software\<close>

lemma collectInserts_returns:
  "\<forall>k\<in>set keys. 2 \<le> count_list k separator \<Longrightarrow>
     \<exists>r. collectInserts h cur acc keys tx = Inr r"
proof (induction keys arbitrary: acc tx)
  case Nil
  then show ?case by simp
next
  case (Cons k keys)
  then have d: "\<exists>sw. uniqueStringToSoftware k = Inr sw"
    using decode_returns [of k] by simp
  then obtain sw where sw: "uniqueStringToSoftware k = Inr sw" ..
  obtain r tx1 where g: "getOrGenerateSoftwareId sw tx = (r, tx1)"
    by (cases "getOrGenerateSoftwareId sw tx")
  from Cons show ?case
    by (cases r) (simp_all add: sw g)
qed

lemma keys_softwareSliceToSet:
  "fst ` set (softwareSliceToSet xs) = softwareToUniqueString ` set xs"
proof -
  have "dom (map_of (softwareSliceToSet xs)) = softwareToUniqueString ` set xs"
    by (auto simp: softwareSliceToSet_def map_of_bitmap dom_def)
  then show ?thesis by (simp add: dom_map_of_conv_image_fst)
qed

lemma insertNewInstalledHostSoftware_returns:
  "\<exists>r. insertNewInstalledHostSoftware h cur (softwareSliceToSet xs) tx = Inr r"
proof -
  obtain ks ta where r: "range_keys (softwareSliceToSet xs) tx = (ks, ta)"
    by (cases "range_keys (softwareSliceToSet xs) tx")
  have "set ks = softwareToUniqueString ` set xs"
    using range_keys_result(1) [OF r] by (simp add: keys_softwareSliceToSet)
  then have "\<forall>k\<in>set ks. 2 \<le> count_list k separator"
    using count_encode by auto
  then obtain c where c: "collectInserts h cur [] ks ta = Inr c"
    using collectInserts_returns by blast
  obtain res tb where c2: "c = (res, tb)" by (cases c)
  show ?thesis
  proof (cases res)
    case (Inl e)
    then show ?thesis by (simp add: insertNewInstalledHostSoftware_def r c c2)
  next
    case (Inr ins)
    obtain q tc where "tx_Exec (InsertHostSoftware ins) tb = (q, tc)"
      by (cases "tx_Exec (InsertHostSoftware ins) tb")
    then show ?thesis using Inr
      by (cases q) (simp_all add: insertNewInstalledHostSoftware_def r c c2)
  qed
qed

lemma applyChangesForNewSoftware_returns:
  "\<exists>r. applyChangesForNewSoftware host tx = Inr r"
proof -
  obtain l ta where l: "hostSoftwareFromHostID Tx (HostID host) tx = (l, ta)"
    by (cases "hostSoftwareFromHostID Tx (HostID host) tx")
  show ?thesis
  proof (cases l)
    case (Inl e)
    then show ?thesis by (simp add: applyChangesForNewSoftware_def l)
  next
    case (Inr stored)
    obtain d tb where d: "deleteUninstalledHostSoftware (HostID host) (softwareSliceToIdMap stored)
        (softwareSliceToSet (Software (HostSoftware host))) ta = (d, tb)"
      by (cases "deleteUninstalledHostSoftware (HostID host) (softwareSliceToIdMap stored)
        (softwareSliceToSet (Software (HostSoftware host))) ta")
    show ?thesis
      using insertNewInstalledHostSoftware_returns
        [of "HostID host" "softwareSliceToIdMap stored" "Software (HostSoftware host)" tb]
      by (cases d) (auto simp: applyChangesForNewSoftware_def l Inr d)
  qed
qed

lemma saveBody_returns: "\<exists>err tx1. saveBody host tx = Inr (err, tx1)"
proof (cases "length (Software (HostSoftware host)) = 0")
  case True
  obtain q ta where "tx_Exec (DeleteHostSoftware (HostID host)) tx = (q, ta)"
    by (cases "tx_Exec (DeleteHostSoftware (HostID host)) tx")
  then show ?thesis using True by (cases q) (simp_all add: saveBody_def)
next
  case False
  then show ?thesis
    using applyChangesForNewSoftware_returns [of host tx] by (auto simp: saveBody_def)
qed

text \<open>
  C2. \<open>SaveHostSoftware\<close> always returns, and the host it leaves differs from the one
  it was given at most in the Modified flag, which is true afterwards exactly when it
  was true before and an error is returned. For a host with the flag set, no error is
  returned exactly when the last statement of the call is a commit that succeeded;
  every error returned is wrapped with "save host software".
\<close>

theorem SaveHostSoftware_clears_Modified_iff_committed:
  "\<exists>err w1.
     SaveHostSoftware host w =
       Inr (err,
            host\<lparr>HostSoftware :=
              (HostSoftware host)\<lparr>Modified := Modified (HostSoftware host) \<and> err \<noteq> None\<rparr>\<rparr>,
            w1)
     \<and> (Modified (HostSoftware host) \<longrightarrow>
          journal w1 \<noteq> [] \<and> (err = None) = (last (journal w1) = (Commit, True)))
     \<and> (err = None \<or> (\<exists>cause. err = Some (Wrap cause ''save host software'')))"
proof (cases "Modified (HostSoftware host)")
  case False
  then show ?thesis by (simp add: SaveHostSoftware_def)
next
  case True
  obtain e wa where r: "withRetryTxx (saveBody host) w = Inr (e, wa)"
     and j: "journal wa \<noteq> []" "(e = None) = (last (journal wa) = (Commit, True))"
    using retry_result [of "saveBody host" "retries w" w] saveBody_returns
    unfolding withRetryTxx_def by blast
  show ?thesis
  proof (cases e)
    case None
    then show ?thesis using True r j by (simp add: SaveHostSoftware_def)
  next
    case (Some x)
    then show ?thesis using True r j by (simp add: SaveHostSoftware_def)
  qed
qed

theorem SaveHostSoftware_clears_Modified_iff_committed_witness:
  "Modified (HostSoftware host_D)
   \<and> SaveHostSoftware host_D world_A = Inr (None, host_D1, world_E1)
   \<and> \<not> Modified (HostSoftware host_D1)
   \<and> last (journal world_E1) = (Commit, True)
   \<and> SaveHostSoftware host_D world_F =
       Inr (Some (Wrap (Wrap (StoreError Persistent) ''clear join table entries'')
                    ''save host software''),
            host_D, world_F1)
   \<and> last (journal world_F1) = (Rollback, True)"
  using SaveHostSoftware_clears_Modified_iff_committed [of host_D world_A]
    SaveHostSoftware_clears_Modified_iff_committed [of host_D world_F]
  by (simp add: SaveHostSoftware_def saveBody_def host_D_def host_D1_def world_A_def
      store_A_def world_E1_def store_D1_def world_F_def world_F1_def store_defs
      numeral_2_eq_2)

text \<open>
  C7. When a call of \<open>SaveHostSoftware\<close> has succeeded, the host it leaves has the
  Modified flag cleared and the staged collection as before, and a second call on
  that host returns success with the host and the store exactly as they were: no
  transaction is opened and no statement is sent.
\<close>

theorem SaveHostSoftware_second_call_returns_at_once:
  assumes "SaveHostSoftware host w = Inr (None, host1, w1)"
  shows "\<not> Modified (HostSoftware host1)
       \<and> Software (HostSoftware host1) = Software (HostSoftware host)
       \<and> SaveHostSoftware host1 w1 = Inr (None, host1, w1)"
proof -
  have "\<not> Modified (HostSoftware host1) \<and> Software (HostSoftware host1) = Software (HostSoftware host)"
    using assms
    by (auto simp: SaveHostSoftware_def split: if_splits sum.splits option.splits)
  then show ?thesis by (simp add: SaveHostSoftware_def)
qed

theorem SaveHostSoftware_second_call_returns_at_once_witness:
  "SaveHostSoftware host_A world_A = Inr (None, host_A1, world_A1)
   \<and> \<not> Modified (HostSoftware host_A1)
   \<and> SaveHostSoftware host_A1 world_A1 = Inr (None, host_A1, world_A1)"
proof -
  have first: "SaveHostSoftware host_A world_A = Inr (None, host_A1, world_A1)"
    by (simp add: SaveHostSoftware_def saveBody_def applyChangesForNewSoftware_def
        hostSoftwareFromHostID_def nothingChanged_def softwareToUniqueString_def
        host_A_def host_A1_def world_A_def world_A1_def store_A_def sw_A_def store_defs
        numeral_2_eq_2)
  from SaveHostSoftware_second_call_returns_at_once [OF first] first show ?thesis
    by simp
qed

subsection \<open>The empty incoming collection\<close>

lemma operation_empty:
  assumes "Software (HostSoftware host) = []"
  shows "\<exists>err w1. operation (saveBody host) w = Inr (err, w1)
     \<and> data_statements w1 = data_statements w @ [DeleteHostSoftware (HostID host)]
     \<and> attempts w1 = Suc (attempts w)
     \<and> retries w1 = retries w
     \<and> transient_failures w1 \<le> transient_failures w
     \<and> ((\<exists>e. err = Some e \<and> retryableError e) \<longrightarrow> transient_failures w1 < transient_failures w)
     \<and> prefix (software (committed w)) (software (committed w1))
     \<and> host_software (committed w1) =
         (if err = None then filter (\<lambda>m. fst m \<noteq> HostID host) (host_software (committed w))
          else host_software (committed w))"
proof -
  let ?D = "DeleteHostSoftware (HostID host)"
  obtain k wa where a: "arrive (Beginx w) = (k, wa)" by (cases "arrive (Beginx w)")
  note af = arrive_fields [OF a] and ac = arrive_catalog [OF a] and as = arrive_schedule [OF a]
  have b: "journal (Beginx w) = journal w @ [(Begin, True)]" "committed (Beginx w) = committed w"
    "working (Beginx w) = committed w" "retries (Beginx w) = retries w"
    "transient_failures (Beginx w) = transient_failures w"
    by (simp_all add: Beginx_def transient_failures_def record_stmt_def)
  show ?thesis
  proof (cases k)
    case (Some kind)
    have o: "operation (saveBody host) w =
       Inr (Some (Wrap (StoreError kind) ''clear join table entries''),
            tx_Rollback (record_stmt ?D False wa))"
      using assms a Some by (simp add: operation_def saveBody_def tx_Exec_def)
    have t: "kind = Transient \<Longrightarrow> transient_failures wa < transient_failures w"
      using as(2) Some b(5) by simp
    show ?thesis
      unfolding o using af ac as(1) b t
      by (simp add: tx_Rollback_def data_statements_def attempts_def transaction_control_def
          transient_failures_def)
  next
    case None
    let ?wb = "record_stmt ?D True
       (wa\<lparr>working := (working wa)\<lparr>host_software :=
          filter (\<lambda>m. fst m \<noteq> HostID host) (host_software (working wa))\<rparr>\<rparr>)"
    have body: "saveBody host (Beginx w) = Inr (None, ?wb)"
      using assms a None by (simp add: saveBody_def tx_Exec_def Let_def)
    obtain k2 wc where a2: "arrive ?wb = (k2, wc)" by (cases "arrive ?wb")
    note af2 = arrive_fields [OF a2] and ac2 = arrive_catalog [OF a2]
      and as2 = arrive_schedule [OF a2]
    have tb: "transient_failures ?wb = transient_failures wa"
      by (simp add: transient_failures_def)
    have p1: "prefix (software (committed w)) (software (committed wc))"
      using ac(1) ac2(1) b(2) by (auto intro: prefix_order.trans)
    have p2: "prefix (software (committed w)) (software (working wc))"
      using ac(2) ac2(2) b(3) by (auto intro: prefix_order.trans)
    show ?thesis
    proof (cases k2)
      case (Some kind)
      have o: "operation (saveBody host) w =
         Inr (Some (StoreError kind), record_stmt Commit False (wc\<lparr>working := committed wc\<rparr>))"
        using body a2 Some by (simp add: operation_def tx_Commit_def)
      have t: "kind = Transient \<Longrightarrow> transient_failures wc < transient_failures w"
        using as2(2) Some tb as(1) b(5) by simp
      have t2: "transient_failures wc \<le> transient_failures w"
        using as2(1) tb as(1) b(5) by simp
      show ?thesis
        unfolding o using af af2 b p1 t t2
        by (simp add: data_statements_def attempts_def transaction_control_def
            transient_failures_def)
    next
      case None
      have o: "operation (saveBody host) w =
         Inr (None, record_stmt Commit True (wc\<lparr>committed := working wc\<rparr>))"
        using body a2 None by (simp add: operation_def tx_Commit_def)
      have t2: "transient_failures wc \<le> transient_failures w"
        using as2(1) tb as(1) b(5) by simp
      show ?thesis
        unfolding o using af af2 b p2 t2
        by (simp add: data_statements_def attempts_def transaction_control_def
            transient_failures_def)
    qed
  qed
qed

lemma retry_empty:
  assumes "Software (HostSoftware host) = []"
  shows "\<exists>err w1 n. retry r (saveBody host) w = Inr (err, w1)
     \<and> data_statements w1 = data_statements w @ replicate n (DeleteHostSoftware (HostID host))
     \<and> attempts w1 = attempts w + n
     \<and> 1 \<le> n \<and> n \<le> r + 1 \<and> n \<le> transient_failures w + 1
     \<and> prefix (software (committed w)) (software (committed w1))
     \<and> host_software (committed w1) =
         (if err = None then filter (\<lambda>m. fst m \<noteq> HostID host) (host_software (committed w))
          else host_software (committed w))"
proof (induction r arbitrary: w)
  case 0
  from operation_empty [OF assms, of w] obtain err w1 where
    o: "operation (saveBody host) w = Inr (err, w1)"
      "data_statements w1 = data_statements w @ [DeleteHostSoftware (HostID host)]"
      "attempts w1 = Suc (attempts w)"
      "prefix (software (committed w)) (software (committed w1))"
      "host_software (committed w1) =
         (if err = None then filter (\<lambda>m. fst m \<noteq> HostID host) (host_software (committed w))
          else host_software (committed w))"
    by blast
  show ?case
    by (rule exI [of _ err], rule exI [of _ w1], rule exI [of _ 1]) (use o in simp)
next
  case (Suc r)
  from operation_empty [OF assms, of w] obtain err w1 where
    o: "operation (saveBody host) w = Inr (err, w1)"
      "data_statements w1 = data_statements w @ [DeleteHostSoftware (HostID host)]"
      "attempts w1 = Suc (attempts w)"
      "transient_failures w1 \<le> transient_failures w"
      "(\<exists>e. err = Some e \<and> retryableError e) \<longrightarrow> transient_failures w1 < transient_failures w"
      "prefix (software (committed w)) (software (committed w1))"
      "host_software (committed w1) =
         (if err = None then filter (\<lambda>m. fst m \<noteq> HostID host) (host_software (committed w))
          else host_software (committed w))"
    by blast
  show ?case
  proof (cases "\<exists>e. err = Some e \<and> retryableError e")
    case False
    then have "retry (Suc r) (saveBody host) w = Inr (err, w1)"
      using o(1) by (cases err) auto
    then show ?thesis
      by (intro exI [of _ err] exI [of _ w1] exI [of _ 1]) (use o in simp)
  next
    case True
    then obtain e where e: "err = Some e" "retryableError e" by blast
    from Suc [of w1] obtain err2 w2 n where
      i: "retry r (saveBody host) w1 = Inr (err2, w2)"
        "data_statements w2 = data_statements w1 @ replicate n (DeleteHostSoftware (HostID host))"
        "attempts w2 = attempts w1 + n"
        "1 \<le> n" "n \<le> r + 1" "n \<le> transient_failures w1 + 1"
        "prefix (software (committed w1)) (software (committed w2))"
        "host_software (committed w2) =
           (if err2 = None then filter (\<lambda>m. fst m \<noteq> HostID host) (host_software (committed w1))
            else host_software (committed w1))"
      by blast
    have r: "retry (Suc r) (saveBody host) w = Inr (err2, w2)"
      using o(1) e i(1) by simp
    have p: "prefix (software (committed w)) (software (committed w2))"
      using o(6) i(7) by (rule prefix_order.trans)
    have t: "Suc n \<le> transient_failures w + 1"
      using o(5) e i(6) by auto
    show ?thesis
      by (intro exI [of _ err2] exI [of _ w2] exI [of _ "Suc n"])
         (use r p t i o e in \<open>simp add: replicate_append_same\<close>)
  qed
qed

text \<open>
  C3, as stated, fails: it has \<open>SaveHostSoftware\<close> send exactly one deletion. On
  the host with an empty staged collection and a store whose first statement fails
  transiently, the transaction is run again and the call, which succeeds, has sent the
  deletion twice.
\<close>

theorem SaveHostSoftware_empty_incoming_retried:
  "SaveHostSoftware host_D world_D = Inr (None, host_D1, world_D1)
   \<and> data_statements world_D1 = [DeleteHostSoftware 5, DeleteHostSoftware 5]"
  by (simp add: SaveHostSoftware_def saveBody_def data_statements_def transaction_control_def
      host_D_def host_D1_def world_D_def world_D1_def world_A_def store_A_def store_D1_def
      store_defs numeral_2_eq_2)

text \<open>
  C3, amended. For a host with the Modified flag set and an empty staged collection,
  each attempt of the transaction sends exactly one statement besides transaction
  control, the deletion of every membership row of the host. So the call sends that
  deletion once per attempt and nothing else: at least once, at most once more than
  the store fails transiently, and at most \<open>retries + 1\<close> times. No lookup of the
  host's software and no catalog statement is sent, the catalog rows stay in place,
  and the host's membership rows are gone when the call succeeds and untouched when
  it fails.
\<close>

theorem SaveHostSoftware_empty_incoming:
  assumes "Modified (HostSoftware host)" "Software (HostSoftware host) = []"
  shows "\<exists>err w1 n.
     SaveHostSoftware host w =
       Inr (err, host\<lparr>HostSoftware := (HostSoftware host)\<lparr>Modified := err \<noteq> None\<rparr>\<rparr>, w1)
     \<and> data_statements w1 = data_statements w @ replicate n (DeleteHostSoftware (HostID host))
     \<and> attempts w1 = attempts w + n
     \<and> 1 \<le> n \<and> n \<le> retries w + 1 \<and> n \<le> transient_failures w + 1
     \<and> prefix (software (committed w)) (software (committed w1))
     \<and> host_software (committed w1) =
         (if err = None then filter (\<lambda>m. fst m \<noteq> HostID host) (host_software (committed w))
          else host_software (committed w))"
proof -
  from retry_empty [OF assms(2), of "retries w" w] obtain e w1 n where
    r: "withRetryTxx (saveBody host) w = Inr (e, w1)"
      "data_statements w1 = data_statements w @ replicate n (DeleteHostSoftware (HostID host))"
      "attempts w1 = attempts w + n"
      "1 \<le> n" "n \<le> retries w + 1" "n \<le> transient_failures w + 1"
      "prefix (software (committed w)) (software (committed w1))"
      "host_software (committed w1) =
         (if e = None then filter (\<lambda>m. fst m \<noteq> HostID host) (host_software (committed w))
          else host_software (committed w))"
    unfolding withRetryTxx_def by blast
  show ?thesis
  proof (cases e)
    case None
    show ?thesis
      by (intro exI [of _ None] exI [of _ w1] exI [of _ n])
         (use r None assms(1) in \<open>simp add: SaveHostSoftware_def\<close>)
  next
    case (Some x)
    show ?thesis
      by (intro exI [of _ "Some (Wrap x ''save host software'')"] exI [of _ w1] exI [of _ n])
         (use r Some assms(1) in \<open>simp add: SaveHostSoftware_def\<close>)
  qed
qed

theorem SaveHostSoftware_empty_incoming_witness:
  "Modified (HostSoftware host_D) \<and> Software (HostSoftware host_D) = []
   \<and> (\<exists>err w1.
        SaveHostSoftware host_D world_A =
          Inr (err, host_D\<lparr>HostSoftware := (HostSoftware host_D)\<lparr>Modified := err \<noteq> None\<rparr>\<rparr>, w1)
        \<and> data_statements w1 = [DeleteHostSoftware 5]
        \<and> attempts w1 = 1
        \<and> host_software (committed w1) = (if err = None then [] else [(5, 1)]))"
proof -
  have h: "Modified (HostSoftware host_D)" "Software (HostSoftware host_D) = []"
    by (simp_all add: host_D_def)
  from SaveHostSoftware_empty_incoming [OF h, of world_A] obtain err w1 n where
    r: "SaveHostSoftware host_D world_A =
          Inr (err, host_D\<lparr>HostSoftware := (HostSoftware host_D)\<lparr>Modified := err \<noteq> None\<rparr>\<rparr>, w1)"
      "data_statements w1 = data_statements world_A @ replicate n (DeleteHostSoftware (HostID host_D))"
      "attempts w1 = attempts world_A + n"
      "1 \<le> n" "n \<le> transient_failures world_A + 1"
      "host_software (committed w1) =
         (if err = None
          then filter (\<lambda>m. fst m \<noteq> HostID host_D) (host_software (committed world_A))
          else host_software (committed world_A))"
    by blast
  have n: "n = 1"
    using r(4,5) by (simp add: transient_failures_def world_A_def)
  have "data_statements w1 = [DeleteHostSoftware 5]" "attempts w1 = 1"
    "host_software (committed w1) = (if err = None then [] else [(5, 1)])"
    using r(2,3,6) n
    by (simp_all add: data_statements_def attempts_def host_D_def world_A_def store_A_def)
  with h r(1) show ?thesis by blast
qed

end
